theory Spec2Isabelle
  imports Complex_Main "HOL-Library.Sublist" "HOL-Library.AList" "HOL-Library.Multiset"
begin

section \<open>Raw values and Python string operations\<close>

text \<open>
  A row of the store is a sequence of raw scalars. The embedding covers the SQLite storage
  classes NULL, TEXT and INTEGER (Python \<^verbatim>\<open>None\<close>, \<^verbatim>\<open>str\<close>, \<^verbatim>\<open>int\<close>); text is ASCII, one
  \<^typ>\<open>char\<close> per character, so that \<^const>\<open>length\<close> is Python's \<^verbatim>\<open>len\<close>.
\<close>

datatype sqlval = Null | Text string | Num int

text \<open>Python truthiness, the test \<^verbatim>\<open>if value:\<close> of every scan loop.\<close>

fun truthy :: "sqlval \<Rightarrow> bool" where
  "truthy Null = False"
| "truthy (Text s) = (s \<noteq> [])"
| "truthy (Num i) = (i \<noteq> 0)"

definition digit_char :: "nat \<Rightarrow> char" where
  "digit_char d = ''0123456789'' ! d"

function str_nat :: "nat \<Rightarrow> string" where
  "str_nat n = (if n < 10 then [digit_char n] else str_nat (n div 10) @ [digit_char (n mod 10)])"
  by pat_completeness auto
termination
  by (relation "measure id") auto

declare str_nat.simps [simp del]

text \<open>\<^verbatim>\<open>str(value)\<close>.\<close>

fun py_str :: "sqlval \<Rightarrow> string" where
  "py_str Null = ''None''"
| "py_str (Text s) = s"
| "py_str (Num i) = (if i < 0 then CHR ''-'' # str_nat (nat (- i)) else str_nat (nat i))"

definition upper_chars :: string where
  "upper_chars = ''ABCDEFGHIJKLMNOPQRSTUVWXYZ''"

definition lower_chars :: string where
  "lower_chars = ''abcdefghijklmnopqrstuvwxyz''"

definition lower_char :: "char \<Rightarrow> char" where
  "lower_char c = (case map_of (zip upper_chars lower_chars) c of Some d \<Rightarrow> d | None \<Rightarrow> c)"

text \<open>\<^verbatim>\<open>s.lower()\<close> on ASCII text.\<close>

definition lower :: "string \<Rightarrow> string" where
  "lower s = map lower_char s"

text \<open>\<^verbatim>\<open>k in s\<close> on strings: \<open>k\<close> occurs as a contiguous substring of \<open>s\<close>.\<close>

definition py_in :: "string \<Rightarrow> string \<Rightarrow> bool" where
  "py_in k s = sublist k s"

text \<open>\<^verbatim>\<open>sep.join(xs)\<close>.\<close>

fun join :: "string \<Rightarrow> string list \<Rightarrow> string" where
  "join sep [] = []"
| "join sep [x] = x"
| "join sep (x # y # ys) = x @ sep @ join sep (y # ys)"

section \<open>Taxonomy and matches\<close>

datatype tier = High | Medium | Low

text \<open>
  A taxonomy (\<^verbatim>\<open>self.target_keywords\<close>) is a dict from category name to its keyword list;
  dicts keep insertion order, so it is an association list. The \<^verbatim>\<open>patterns\<close> and
  \<^verbatim>\<open>priority\<close> entries play no part in classification and are left out.
\<close>

type_synonym taxonomy = "(string \<times> string list) list"

text \<open>\<^verbatim>\<open>KeywordAnalyzer.target_keywords\<close> (also that of \<^verbatim>\<open>AdvancedKeywordAnalyzer\<close>).\<close>

definition target_keywords :: taxonomy where
  "target_keywords =
    [(''authentication'', [''token'', ''auth'', ''login'', ''logout'', ''credential'', ''password'', ''session'']),
     (''subscription'', [''pro'', ''plan'', ''subscription'', ''trial'', ''premium'', ''paid'', ''billing'']),
     (''ai_features'', [''max mode'', ''ai'', ''model'', ''chat'', ''composer'', ''copilot'']),
     (''account_status'', [''status'', ''active'', ''inactive'', ''enabled'', ''disabled'', ''banned'']),
     (''blackbox_specific'', [''blackbox'', ''blackboxai'', ''blackboxapp'']),
     (''usage_limits'', [''limit'', ''quota'', ''usage'', ''remaining'', ''consumed''])]"

text \<open>\<^verbatim>\<open>OptimizedKeywordAnalyzer.target_keywords\<close>.\<close>

definition target_keywords_optimized :: taxonomy where
  "target_keywords_optimized =
    [(''authentication'', [''token'', ''auth'', ''credential'', ''password'', ''session'', ''login'']),
     (''subscription'', [''pro'', ''plan'', ''subscription'', ''trial'', ''premium'', ''billing'']),
     (''ai_features'', [''ai'', ''model'', ''chat'', ''composer'', ''copilot'', ''max mode'']),
     (''account_status'', [''status'', ''active'', ''enabled'', ''disabled'']),
     (''blackbox_specific'', [''blackbox'', ''blackboxai'', ''blackboxapp'']),
     (''usage_limits'', [''limit'', ''quota'', ''usage'', ''remaining''])]"

text \<open>\<^verbatim>\<open>self.sensitive_categories\<close> of \<^verbatim>\<open>KeywordAnalyzer\<close> and \<^verbatim>\<open>AdvancedKeywordAnalyzer\<close>.\<close>

definition high_sensitive :: "string list" where
  "high_sensitive = [''token'', ''password'', ''key'', ''secret'', ''credential'']"

definition medium_sensitive :: "string list" where
  "medium_sensitive = [''userid'', ''email'', ''api'', ''auth'']"

text \<open>
  A Python dict built by successive \<^verbatim>\<open>d[k] = v\<close>: an association list in insertion order,
  a repeated key overwriting in place (\<^const>\<open>AList.update\<close>).
\<close>

type_synonym pydict = "(string \<times> sqlval) list"

definition dict_of :: "(string \<times> sqlval) list \<Rightarrow> pydict" where
  "dict_of kvs = foldl (\<lambda>d (k, v). AList.update k v d) [] kvs"

record match =
  table :: string
  category :: string
  columns :: "string list"
  data :: pydict
  matched_keywords :: "string list"
  sensitivity :: tier

text \<open>
  The keyword loop shared by every variant:
  \<^verbatim>\<open>
  for col, value in zip(columns, row):
      if value:
          value_str = str(value).lower()
          for keyword in config["keywords"]:
              if keyword.lower() in value_str:
                  if keyword not in matched_keywords:
                      matched_keywords.append(keyword)
  \<close>
\<close>

fun scan_value :: "string list \<Rightarrow> string \<Rightarrow> string list \<Rightarrow> string list" where
  "scan_value [] value_str acc = acc"
| "scan_value (keyword # ks) value_str acc =
     scan_value ks value_str
       (if py_in (lower keyword) value_str \<and> keyword \<notin> set acc then acc @ [keyword] else acc)"

fun scan_fields :: "string list \<Rightarrow> (string \<times> sqlval) list \<Rightarrow> string list \<Rightarrow> string list" where
  "scan_fields keywords [] acc = acc"
| "scan_fields keywords ((col, v) # fs) acc =
     scan_fields keywords fs
       (if truthy v then scan_value keywords (lower (py_str v)) acc else acc)"

section \<open>Redactor (\<^verbatim>\<open>AdvancedKeywordAnalyzer._censor_sensitive_data\<close>)\<close>

text \<open>
  \<^verbatim>\<open>any(sens in key_lower for sens in self.sensitive_categories["high_sensitive"])\<close>:
  the column name, lowercased, contains a high-sensitivity keyword.
\<close>

definition is_sensitive_key :: "string \<Rightarrow> bool" where
  "is_sensitive_key key = list_ex (\<lambda>sens. py_in sens (lower key)) high_sensitive"

text \<open>The body of the loop over \<^verbatim>\<open>data_dict.items()\<close>: the value stored under \<open>key\<close>.\<close>

definition censor_value :: "string \<Rightarrow> sqlval \<Rightarrow> sqlval" where
  "censor_value key v =
     (if v = Null then Null
      else if is_sensitive_key key then
        (if length (py_str v) > 20 then
           Text (take 10 (py_str v) @ ''***[SENSITIVE DATA CENSORED]***''
                 @ drop (length (py_str v) - 5) (py_str v))
         else if length (py_str v) > 10 then Text (take 5 (py_str v) @ ''***[CENSORED]***'')
         else Text ''***[CENSORED]***'')
      else v)"

definition censor_sensitive_data :: "pydict \<Rightarrow> pydict" where
  "censor_sensitive_data data_dict =
     foldl (\<lambda>censored (key, v). AList.update key (censor_value key v) censored) [] data_dict"

section \<open>Sensitivity (\<^verbatim>\<open>KeywordAnalyzer._determine_sensitivity\<close>)\<close>

text \<open>
  The text blob: \<^verbatim>\<open>all_text += f" {col} {str(value)}"\<close> for every item of
  \<^verbatim>\<open>match_data['data']\<close> whose value is truthy, lowercased at the end.
\<close>

definition all_text :: "pydict \<Rightarrow> string" where
  "all_text d =
     lower (concat (map (\<lambda>(col, v). if truthy v then '' '' @ col @ '' '' @ py_str v else []) d))"

definition determine_sensitivity :: "match \<Rightarrow> tier" where
  "determine_sensitivity match_data =
     (if list_ex (\<lambda>keyword. py_in keyword (all_text (data match_data))) high_sensitive then High
      else if list_ex (\<lambda>keyword. py_in keyword (all_text (data match_data))) medium_sensitive
      then Medium
      else Low)"

text \<open>
  The blob in the words of the specification: every non-null field value, with its column
  name, lowercased.
\<close>

definition spec_text :: "pydict \<Rightarrow> string" where
  "spec_text d =
     lower (concat (map (\<lambda>(col, v). if v \<noteq> Null then '' '' @ col @ '' '' @ py_str v else []) d))"

section \<open>Classifier of \<^verbatim>\<open>OptimizedKeywordAnalyzer\<close>\<close>

definition high_sensitive_keywords :: "string list" where
  "high_sensitive_keywords = [''token'', ''password'', ''key'', ''secret'', ''credential'', ''auth'']"

text \<open>\<^verbatim>\<open>_determine_sensitivity_fast(matched_keywords, data_row)\<close>.\<close>

definition data_str :: "sqlval list \<Rightarrow> string" where
  "data_str data_row = lower (take 500 (join '' '' (map py_str (filter truthy data_row))))"

definition determine_sensitivity_fast :: "string list \<Rightarrow> sqlval list \<Rightarrow> tier" where
  "determine_sensitivity_fast matched data_row =
     (if list_ex (\<lambda>keyword.
           list_ex (\<lambda>sensitive. py_in sensitive (lower keyword)) high_sensitive_keywords) matched
      then High
      else if list_ex (\<lambda>sensitive. py_in sensitive (data_str data_row)) high_sensitive_keywords
      then High
      else if list_ex (\<lambda>keyword. py_in keyword (data_str data_row)) [''userid'', ''email'', ''api'']
      then Medium
      else Low)"

text \<open>
  \<^verbatim>\<open>category_matches\<close>: a dict from category to its list of matches, created as
  \<^verbatim>\<open>{category: [] for category in self.target_keywords}\<close>.
\<close>

type_synonym buckets = "(string \<times> match list) list"

definition init_matches :: "taxonomy \<Rightarrow> buckets" where
  "init_matches cfg = map (\<lambda>(category, config). (category, [])) cfg"

text \<open>
  One row of \<^verbatim>\<open>_process_batch\<close>: \<^verbatim>\<open>main_data = row[:len(columns)]\<close>, then for every category
  the keyword loop and, if any keyword matched, \<^verbatim>\<open>category_matches[category].append(match_data)\<close>.
\<close>

definition process_category ::
  "string \<Rightarrow> string list \<Rightarrow> sqlval list \<Rightarrow> buckets \<Rightarrow> string \<times> string list \<Rightarrow> buckets" where
  "process_category table_name cols main_data category_matches cc =
     (let matched = scan_fields (snd cc) (zip cols main_data) [] in
      if matched \<noteq> [] then
        AList.map_entry (fst cc) (\<lambda>ms. ms @
          [\<lparr>table = table_name, category = fst cc, columns = cols,
            data = dict_of (zip cols main_data), matched_keywords = matched,
            sensitivity = determine_sensitivity_fast matched main_data\<rparr>]) category_matches
      else category_matches)"

definition process_row ::
  "taxonomy \<Rightarrow> string \<Rightarrow> string list \<Rightarrow> buckets \<Rightarrow> sqlval list \<Rightarrow> buckets" where
  "process_row cfg table_name cols category_matches row =
     foldl (process_category table_name cols (take (length cols) row)) category_matches cfg"

definition process_batch ::
  "taxonomy \<Rightarrow> sqlval list list \<Rightarrow> string list \<Rightarrow> buckets \<Rightarrow> string \<Rightarrow> buckets" where
  "process_batch cfg rows cols category_matches table_name =
     foldl (process_row cfg table_name cols) category_matches rows"

text \<open>
  A stored table: its name, its column names (\<^verbatim>\<open>PRAGMA table_info\<close>) and its rows in the
  order the store returns them.
\<close>

record mem_table =
  mt_name :: string
  mt_columns :: "string list"
  mt_rows :: "sqlval list list"

text \<open>
  The batching loop of \<^verbatim>\<open>_search_table_optimized\<close>: \<^verbatim>\<open>total_rows\<close> is \<^verbatim>\<open>COUNT(*)\<close>, a batch is
  \<^verbatim>\<open>LIMIT batch_size OFFSET processed\<close>, an empty batch leaves the loop. The indicator columns
  that the query appends to each row are cut off again by \<^verbatim>\<open>row[:len(columns)]\<close> and are not
  represented.
\<close>

function search_loop ::
  "taxonomy \<Rightarrow> nat \<Rightarrow> mem_table \<Rightarrow> nat \<Rightarrow> buckets \<Rightarrow> buckets" where
  "search_loop cfg batch_size t processed category_matches =
     (if processed < length (mt_rows t) then
        (if take batch_size (drop processed (mt_rows t)) = [] then category_matches
         else search_loop cfg batch_size t
                (processed + length (take batch_size (drop processed (mt_rows t))))
                (process_batch cfg (take batch_size (drop processed (mt_rows t))) (mt_columns t)
                   category_matches (mt_name t)))
      else category_matches)"
  by pat_completeness auto
termination
  by (relation "measure (\<lambda>(cfg, batch_size, t, processed, cm). length (mt_rows t) - processed)")
     auto

declare search_loop.simps [simp del]

definition search_table_optimized :: "taxonomy \<Rightarrow> nat \<Rightarrow> mem_table \<Rightarrow> buckets" where
  "search_table_optimized cfg batch_size t = search_loop cfg batch_size t 0 (init_matches cfg)"

text \<open>The summary of \<^verbatim>\<open>export_comprehensive_results\<close>: counts per category and per tier.\<close>

definition category_counts :: "buckets \<Rightarrow> (string \<times> nat) list" where
  "category_counts kw = map (\<lambda>(cat, matches). (cat, length matches)) kw"

definition tier_count :: "tier \<Rightarrow> match list \<Rightarrow> nat" where
  "tier_count s ms = length (filter (\<lambda>m. sensitivity m = s) ms)"


text \<open>Keeping the first occurrence of every element, in order.\<close>

definition first_occurrences :: "'a list \<Rightarrow> 'a list" where
  "first_occurrences xs = rev (remdups (rev xs))"

text \<open>The keywords of a category found in a row, field by field, with repetitions.\<close>

definition keyword_hits :: "string list \<Rightarrow> (string \<times> sqlval) list \<Rightarrow> string list" where
  "keyword_hits keywords fs =
     concat (map (\<lambda>(col, v).
        if truthy v then filter (\<lambda>k. py_in (lower k) (lower (py_str v))) keywords else []) fs)"

definition insert_new :: "'a list \<Rightarrow> 'a \<Rightarrow> 'a list" where
  "insert_new acc k = (if k \<in> set acc then acc else acc @ [k])"

text \<open>What one row adds to the bucket of the category \<open>c\<close> with keyword list \<open>kws\<close>.\<close>

definition row_matches ::
  "string \<Rightarrow> string list \<Rightarrow> sqlval list \<Rightarrow> string \<Rightarrow> string list \<Rightarrow> match list" where
  "row_matches table_name cols main_data c kws =
     (if keyword_hits kws (zip cols main_data) = [] then []
      else [\<lparr>table = table_name, category = c, columns = cols,
            data = dict_of (zip cols main_data),
            matched_keywords = first_occurrences (keyword_hits kws (zip cols main_data)),
            sensitivity = determine_sensitivity_fast
               (first_occurrences (keyword_hits kws (zip cols main_data))) main_data\<rparr>])"

section \<open>The store as seen by \<^verbatim>\<open>KeywordAnalyzer\<close> and \<^verbatim>\<open>FlexibleKeywordAnalyzer\<close>\<close>

text \<open>
  These two variants leave the selection of rows to the store. A table is represented by
  the answers of the cursor: the result of \<^verbatim>\<open>PRAGMA table_info\<close> and, for a keyword list and
  an optional \<^verbatim>\<open>LIMIT\<close>, the result of
  \<^verbatim>\<open>SELECT * FROM t WHERE LOWER(col) LIKE '%kw%' OR ...\<close>. Either call may raise.
\<close>

datatype db_error = DbError string

record db_table =
  tname :: string
  table_info :: "db_error + string list"
  select_like :: "string list \<Rightarrow> nat option \<Rightarrow> db_error + sqlval list list"

section \<open>\<^verbatim>\<open>KeywordAnalyzer\<close>: scan and aggregation\<close>

text \<open>The match built for one selected row in \<^verbatim>\<open>_search_in_table\<close>.\<close>

definition make_match ::
  "string \<Rightarrow> string \<Rightarrow> string list \<Rightarrow> string list \<Rightarrow> sqlval list \<Rightarrow> match" where
  "make_match table_name cat cols kws row =
     (let match_data = \<lparr>table = table_name, category = cat, columns = cols,
                         data = dict_of (zip cols row),
                         matched_keywords = scan_fields kws (zip cols row) [],
                         sensitivity = Low\<rparr>
      in match_data\<lparr>sensitivity := determine_sensitivity match_data\<rparr>)"

text \<open>
  The loop over the categories inside the \<^verbatim>\<open>try\<close> block. A category with no search
  condition (no keyword or no column) issues no query. The first exception ends the loop;
  \<^verbatim>\<open>category_matches\<close> is returned as it stands, together with the error that was printed.
\<close>

fun search_categories ::
  "db_table \<Rightarrow> string list \<Rightarrow> nat option \<Rightarrow> taxonomy \<Rightarrow> buckets \<Rightarrow> buckets \<times> db_error option" where
  "search_categories t cols row_limit [] category_matches = (category_matches, None)"
| "search_categories t cols row_limit ((cat, kws) # rest) category_matches =
     (if kws = [] \<or> cols = [] then search_categories t cols row_limit rest category_matches
      else case select_like t kws row_limit of
             Inl e \<Rightarrow> (category_matches, Some e)
           | Inr rows \<Rightarrow>
               search_categories t cols row_limit rest
                 (AList.map_entry cat
                    (\<lambda>ms. ms @ map (make_match (tname t) cat cols kws) rows) category_matches))"

definition search_in_table ::
  "taxonomy \<Rightarrow> bool \<Rightarrow> nat \<Rightarrow> db_table \<Rightarrow> buckets \<times> db_error option" where
  "search_in_table cfg quick_mode max_items t =
     (case table_info t of
        Inl e \<Rightarrow> (init_matches cfg, Some e)
      | Inr cols \<Rightarrow>
          search_categories t cols
            (if quick_mode then Some (max_items div length cfg) else None) cfg (init_matches cfg))"

text \<open>
  \<^verbatim>\<open>self.results\<close>: the per-category buckets, the flat list of all accepted matches, and the
  warnings printed so far.
\<close>

record results =
  res_keywords :: buckets
  res_raw_data :: "match list"
  res_warnings :: "db_error list"

definition new_results :: results where
  "new_results = \<lparr>res_keywords = [], res_raw_data = [], res_warnings = []\<rparr>"

text \<open>\<^verbatim>\<open>self.results['keywords'][category]\<close>; every category has a bucket.\<close>

definition bucket :: "buckets \<Rightarrow> string \<Rightarrow> match list" where
  "bucket kw c = (case map_of kw c of Some ms \<Rightarrow> ms | None \<Rightarrow> [])"

text \<open>
  Merging the matches of one category of one table:
  \<^verbatim>\<open>
  if self.quick_mode:
      remaining_slots = max(0, self.max_items - len(self.results['keywords'][category]))
      matches = matches[:remaining_slots]
  self.results['keywords'][category].extend(matches)
  self.results['raw_data'].extend(matches)
  \<close>
\<close>

definition merge_category :: "bool \<Rightarrow> nat \<Rightarrow> results \<Rightarrow> string \<times> match list \<Rightarrow> results" where
  "merge_category quick_mode max_items res cm =
     (let matches = (if quick_mode
                     then take (max_items - length (bucket (res_keywords res) (fst cm))) (snd cm)
                     else snd cm)
      in res\<lparr>res_keywords := AList.map_entry (fst cm) (\<lambda>ms. ms @ matches) (res_keywords res),
             res_raw_data := res_raw_data res @ matches\<rparr>)"

definition log_error :: "db_error option \<Rightarrow> results \<Rightarrow> results" where
  "log_error err res =
     res\<lparr>res_warnings := res_warnings res @ (case err of None \<Rightarrow> [] | Some e \<Rightarrow> [e])\<rparr>"

definition table_total :: "buckets \<Rightarrow> nat" where
  "table_total table_matches = sum_list (map (\<lambda>(c, ms). length ms) table_matches)"

text \<open>The loop over the tables in \<^verbatim>\<open>search_keywords\<close>, with the quick-mode \<^verbatim>\<open>break\<close>.\<close>

fun scan_tables :: "taxonomy \<Rightarrow> bool \<Rightarrow> nat \<Rightarrow> db_table list \<Rightarrow> results \<Rightarrow> results" where
  "scan_tables cfg quick_mode max_items [] res = res"
| "scan_tables cfg quick_mode max_items (t # ts) res =
     (if quick_mode \<and> max_items \<le> length (res_raw_data res) then res
      else scan_tables cfg quick_mode max_items ts
             (log_error (snd (search_in_table cfg quick_mode max_items t))
                (if 0 < table_total (fst (search_in_table cfg quick_mode max_items t))
                 then foldl (merge_category quick_mode max_items) res
                        (fst (search_in_table cfg quick_mode max_items t))
                 else res)))"

text \<open>\<^verbatim>\<open>search_keywords\<close> on a freshly constructed analyzer.\<close>

definition search_keywords :: "taxonomy \<Rightarrow> bool \<Rightarrow> nat \<Rightarrow> db_table list \<Rightarrow> results" where
  "search_keywords cfg quick_mode max_items tables =
     scan_tables cfg quick_mode max_items tables (new_results\<lparr>res_keywords := init_matches cfg\<rparr>)"

text \<open>
  The figures of \<^verbatim>\<open>generate_security_report\<close>. Python's float division is rendered exactly,
  as a rational; a zero divisor raises.
\<close>

datatype py_error = ZeroDivisionError

definition true_div :: "nat \<Rightarrow> nat \<Rightarrow> py_error + rat" where
  "true_div a b = (if b = 0 then Inl ZeroDivisionError else Inr (of_nat a / of_nat b))"

text \<open>\<^verbatim>\<open>(part / total * 100) if total > 0 else 0\<close>.\<close>

definition guarded_percentage :: "nat \<Rightarrow> nat \<Rightarrow> py_error + rat" where
  "guarded_percentage part n =
     (if 0 < n then (case true_div part n of Inl e \<Rightarrow> Inl e | Inr q \<Rightarrow> Inr (q * 100))
      else Inr 0)"

record security_report =
  sr_total :: nat
  sr_high :: nat
  sr_medium :: nat
  sr_high_percentage :: rat
  sr_medium_percentage :: rat
  sr_low :: int

definition generate_security_report :: "match list \<Rightarrow> py_error + security_report" where
  "generate_security_report raw =
     (case guarded_percentage (tier_count High raw) (length raw) of
        Inl e \<Rightarrow> Inl e
      | Inr hp \<Rightarrow>
         (case guarded_percentage (tier_count Medium raw) (length raw) of
            Inl e \<Rightarrow> Inl e
          | Inr mp \<Rightarrow>
              Inr \<lparr>sr_total = length raw, sr_high = tier_count High raw,
                   sr_medium = tier_count Medium raw, sr_high_percentage = hp,
                   sr_medium_percentage = mp,
                   sr_low = int (length raw) - int (tier_count High raw)
                            - int (tier_count Medium raw)\<rparr>))"

section \<open>\<^verbatim>\<open>OptimizedKeywordAnalyzer\<close>: scan and report\<close>

text \<open>
  \<^verbatim>\<open>search_keywords_optimized\<close>: for every table with at least one match, every bucket of
  the table is appended to the bucket of its category and to \<^verbatim>\<open>raw_data\<close>.
\<close>

definition extend_category :: "buckets \<times> match list \<Rightarrow> string \<times> match list \<Rightarrow> buckets \<times> match list" where
  "extend_category res cm =
     (AList.map_entry (fst cm) (\<lambda>ms. ms @ snd cm) (fst res), snd res @ snd cm)"

definition add_table :: "taxonomy \<Rightarrow> nat \<Rightarrow> buckets \<times> match list \<Rightarrow> mem_table \<Rightarrow> buckets \<times> match list" where
  "add_table cfg batch_size res t =
     (if 0 < table_total (search_table_optimized cfg batch_size t)
      then foldl extend_category res (search_table_optimized cfg batch_size t)
      else res)"

definition search_keywords_optimized ::
  "taxonomy \<Rightarrow> nat \<Rightarrow> mem_table list \<Rightarrow> buckets \<times> match list" where
  "search_keywords_optimized cfg batch_size tables =
     foldl (add_table cfg batch_size) (init_matches cfg, []) tables"

text \<open>
  The category lines of \<^verbatim>\<open>generate_comprehensive_report\<close>: for every non-empty bucket,
  \<^verbatim>\<open>percentage = (len(matches) / total_matches) * 100\<close>, with no test of the divisor.
\<close>

fun category_lines :: "nat \<Rightarrow> buckets \<Rightarrow> py_error + (string \<times> nat \<times> rat) list" where
  "category_lines n [] = Inr []"
| "category_lines n ((cat, matches) # rest) =
     (if matches \<noteq> [] then
        (case true_div (length matches) n of
           Inl e \<Rightarrow> Inl e
         | Inr q \<Rightarrow> (case category_lines n rest of
                       Inl e \<Rightarrow> Inl e
                     | Inr ls \<Rightarrow> Inr ((cat, length matches, q * 100) # ls)))
      else category_lines n rest)"

record comprehensive_report =
  cr_sensitivity :: security_report
  cr_categories :: "(string \<times> nat \<times> rat) list"

text \<open>
  The tier figures are computed as in \<^verbatim>\<open>generate_security_report\<close>; the categories are
  listed by decreasing size (\<^verbatim>\<open>sorted(..., key=lambda x: len(x[1]), reverse=True)\<close>).
\<close>

definition generate_comprehensive_report ::
  "buckets \<times> match list \<Rightarrow> py_error + comprehensive_report" where
  "generate_comprehensive_report res =
     (case generate_security_report (snd res) of
        Inl e \<Rightarrow> Inl e
      | Inr sr \<Rightarrow>
         (case category_lines (length (snd res))
                 (sort_key (\<lambda>(cat, matches). - int (length matches)) (fst res)) of
            Inl e \<Rightarrow> Inl e
          | Inr ls \<Rightarrow> Inr \<lparr>cr_sensitivity = sr, cr_categories = ls\<rparr>))"

section \<open>\<^verbatim>\<open>FlexibleKeywordAnalyzer\<close>\<close>

record fmatch =
  f_table :: string
  f_columns :: "string list"
  f_data :: pydict
  f_matched_keywords :: "string list"

definition flexible_match :: "string \<Rightarrow> string list \<Rightarrow> string list \<Rightarrow> sqlval list \<Rightarrow> fmatch" where
  "flexible_match table_name cols kws row =
     \<lparr>f_table = table_name, f_columns = cols, f_data = dict_of (zip cols row),
      f_matched_keywords = scan_fields kws (zip cols row) []\<rparr>"

text \<open>
  The loop over the selected rows: every row is appended, and the loop is left as soon as
  \<^verbatim>\<open>len(matches) >= self.max_results\<close>.
\<close>

fun collect_rows :: "nat \<Rightarrow> ('r \<Rightarrow> 'm) \<Rightarrow> 'r list \<Rightarrow> 'm list \<Rightarrow> 'm list" where
  "collect_rows max_results mk [] matches = matches"
| "collect_rows max_results mk (row # rows) matches =
     (if max_results \<le> length (matches @ [mk row]) then matches @ [mk row]
      else collect_rows max_results mk rows (matches @ [mk row]))"

definition flexible_search_in_table ::
  "string list \<Rightarrow> nat \<Rightarrow> db_table \<Rightarrow> fmatch list \<times> db_error option" where
  "flexible_search_in_table kws max_results t =
     (case table_info t of
        Inl e \<Rightarrow> ([], Some e)
      | Inr cols \<Rightarrow>
          if kws = [] \<or> cols = [] then ([], None)
          else (case select_like t kws None of
                  Inl e \<Rightarrow> ([], Some e)
                | Inr rows \<Rightarrow>
                    (collect_rows max_results (flexible_match (tname t) cols kws) rows [], None)))"

record flexible_results =
  matches_by_table :: "(string \<times> nat) list"
  detailed_matches :: "fmatch list"
  total_matches :: nat
  flexible_warnings :: "db_error list"

definition new_flexible_results :: flexible_results where
  "new_flexible_results =
     \<lparr>matches_by_table = [], detailed_matches = [], total_matches = 0, flexible_warnings = []\<rparr>"

text \<open>What one table does to the results in \<^verbatim>\<open>search_keywords\<close>.\<close>

definition add_flexible_table ::
  "string list \<Rightarrow> nat \<Rightarrow> db_table \<Rightarrow> flexible_results \<Rightarrow> flexible_results" where
  "add_flexible_table kws max_results t res =
     (let table_matches = fst (flexible_search_in_table kws max_results t);
          err = snd (flexible_search_in_table kws max_results t);
          res' = (if table_matches \<noteq> [] then
                    res\<lparr>matches_by_table :=
                           AList.update (tname t) (length table_matches) (matches_by_table res),
                        detailed_matches := detailed_matches res @ table_matches,
                        total_matches := total_matches res + length table_matches\<rparr>
                  else res)
      in res'\<lparr>flexible_warnings :=
                flexible_warnings res' @ (case err of None \<Rightarrow> [] | Some e \<Rightarrow> [e])\<rparr>)"

text \<open>
  The loop over the tables; after each table,
  \<^verbatim>\<open>if total_matches >= self.max_results: break\<close>.
\<close>

fun flexible_scan_tables ::
  "string list \<Rightarrow> nat \<Rightarrow> db_table list \<Rightarrow> flexible_results \<Rightarrow> flexible_results" where
  "flexible_scan_tables kws max_results [] res = res"
| "flexible_scan_tables kws max_results (t # ts) res =
     (if max_results \<le> total_matches (add_flexible_table kws max_results t res)
      then add_flexible_table kws max_results t res
      else flexible_scan_tables kws max_results ts (add_flexible_table kws max_results t res))"

definition flexible_search_keywords ::
  "string list \<Rightarrow> nat \<Rightarrow> db_table list \<Rightarrow> flexible_results" where
  "flexible_search_keywords kws max_results tables =
     flexible_scan_tables kws max_results tables new_flexible_results"

text \<open>The buckets and the flat list are in step: same categories as the taxonomy, same matches.\<close>

definition in_step :: "taxonomy \<Rightarrow> results \<Rightarrow> bool" where
  "in_step cfg res \<longleftrightarrow> map fst (res_keywords res) = map fst cfg
     \<and> mset (res_raw_data res) = mset (concat (map snd (res_keywords res)))"

section \<open>Stores used in examples\<close>

text \<open>
  A table held in memory that answers as SQLite does on NULL, TEXT and INTEGER values:
  \<^verbatim>\<open>LOWER(col) LIKE '%kw%'\<close> is false on NULL and a case-insensitive substring test on the
  text of any other value; \<^verbatim>\<open>LIMIT n\<close> keeps the first \<open>n\<close> rows.
\<close>

definition sql_like_row :: "string list \<Rightarrow> sqlval list \<Rightarrow> bool" where
  "sql_like_row kws row =
     list_ex (\<lambda>v. v \<noteq> Null \<and> list_ex (\<lambda>k. py_in (lower k) (lower (py_str v))) kws) row"

definition stored_table :: "string \<Rightarrow> string list \<Rightarrow> sqlval list list \<Rightarrow> db_table" where
  "stored_table name cols rows =
     \<lparr>tname = name, table_info = Inr cols,
      select_like = (\<lambda>kws row_limit.
         Inr (case row_limit of None \<Rightarrow> filter (sql_like_row kws) rows
              | Some n \<Rightarrow> take n (filter (sql_like_row kws) rows)))\<rparr>"

text \<open>
  The same table, except that every query whose keyword list contains \<open>bad_keyword\<close>
  raises (as a query does whose result holds a value the driver cannot decode).
\<close>

definition breaking_table ::
  "string \<Rightarrow> string list \<Rightarrow> sqlval list list \<Rightarrow> string \<Rightarrow> db_error \<Rightarrow> db_table" where
  "breaking_table name cols rows bad_keyword e =
     \<lparr>tname = name, table_info = Inr cols,
      select_like = (\<lambda>kws row_limit.
         if bad_keyword \<in> set kws then Inl e
         else Inr (case row_limit of None \<Rightarrow> filter (sql_like_row kws) rows
                   | Some n \<Rightarrow> take n (filter (sql_like_row kws) rows)))\<rparr>"

section \<open>Properties of the redactor\<close>

lemma update_fresh: "k \<notin> fst ` set al \<Longrightarrow> AList.update k v al = al @ [(k, v)]"
  by (induction al) auto

lemma foldl_update_distinct:
  "distinct (map fst (acc @ d)) \<Longrightarrow>
   foldl (\<lambda>c (k, v). AList.update k (f k v) c) acc d = acc @ map (\<lambda>(k, v). (k, f k v)) d"
proof (induction d arbitrary: acc)
  case Nil
  then show ?case by simp
next
  case (Cons p d)
  obtain k v where p: "p = (k, v)" by (cases p)
  from Cons.prems p have fresh: "k \<notin> fst ` set acc" by auto
  from Cons.prems p have "distinct (map fst ((acc @ [(k, f k v)]) @ d))" by auto
  from Cons.IH [OF this] show ?case using p fresh by (simp add: update_fresh)
qed

lemma censor_sensitive_data_map:
  "distinct (map fst d) \<Longrightarrow> censor_sensitive_data d = map (\<lambda>(k, v). (k, censor_value k v)) d"
  unfolding censor_sensitive_data_def using foldl_update_distinct [of "[]" d censor_value] by simp

lemma map_of_censor:
  assumes "distinct (map fst d)" and "(key, v) \<in> set d"
  shows "map_of (censor_sensitive_data d) key = Some (censor_value key v)"
proof -
  have "map_of (map (\<lambda>(k, v). (k, censor_value k v)) d) key = Some (censor_value key v)"
    using assms by (induction d) (auto simp: rev_image_eqI)
  then show ?thesis using assms(1) by (simp add: censor_sensitive_data_map)
qed

text \<open>
  Claim C3 (redaction length bands). In a field mapping (a dict, so with distinct keys), a
  field whose column name contains a high-sensitivity keyword is replaced as follows: a null
  value stays null; a value of more than 20 characters becomes its first 10 characters, the
  marker \<^verbatim>\<open>***[SENSITIVE DATA CENSORED]***\<close> and its last 5 characters; a value of 11 to 20
  characters becomes its first 5 characters and the marker \<^verbatim>\<open>***[CENSORED]***\<close>; a value of
  at most 10 characters becomes the marker \<^verbatim>\<open>***[CENSORED]***\<close> alone.
\<close>

theorem censor_length_bands:
  assumes "distinct (map fst d)" and "(key, v) \<in> set d" and "is_sensitive_key key"
  shows "(v = Null \<longrightarrow> map_of (censor_sensitive_data d) key = Some Null)
       \<and> (v \<noteq> Null \<and> 20 < length (py_str v) \<longrightarrow>
            map_of (censor_sensitive_data d) key =
              Some (Text (take 10 (py_str v) @ ''***[SENSITIVE DATA CENSORED]***''
                          @ rev (take 5 (rev (py_str v))))))
       \<and> (v \<noteq> Null \<and> 10 < length (py_str v) \<and> length (py_str v) \<le> 20 \<longrightarrow>
            map_of (censor_sensitive_data d) key =
              Some (Text (take 5 (py_str v) @ ''***[CENSORED]***'')))
       \<and> (v \<noteq> Null \<and> length (py_str v) \<le> 10 \<longrightarrow>
            map_of (censor_sensitive_data d) key = Some (Text ''***[CENSORED]***''))"
  using assms(3) by (simp add: map_of_censor [OF assms(1,2)] censor_value_def rev_take)

theorem censor_length_bands_witness:
  "map_of (censor_sensitive_data
      [(''token'', Text ''abcdefghijklmnopqrstuvwxyz''), (''note'', Text ''abc'')]) ''token''
     = Some (Text ''abcdefghij***[SENSITIVE DATA CENSORED]***vwxyz'')"
proof -
  have h1: "distinct (map fst
      [(''token'', Text ''abcdefghijklmnopqrstuvwxyz''), (''note'', Text ''abc'')])"
    by simp
  have h2: "(''token'', Text ''abcdefghijklmnopqrstuvwxyz'')
        \<in> set [(''token'', Text ''abcdefghijklmnopqrstuvwxyz''), (''note'', Text ''abc'')]"
    by simp
  have h3: "is_sensitive_key ''token''" by code_simp
  show ?thesis using censor_length_bands [OF h1 h2 h3] by simp
qed

text \<open>
  Claim C6 (redaction identity on non-sensitive records). If no column name of a field
  mapping contains (case-insensitively) a high-sensitivity keyword, the redactor returns the
  mapping unchanged.
\<close>

theorem censor_identity:
  assumes "distinct (map fst d)" and "\<forall>(k, v) \<in> set d. \<not> is_sensitive_key k"
  shows "censor_sensitive_data d = d"
proof -
  have "map (\<lambda>(k, v). (k, censor_value k v)) d = map (\<lambda>p. p) d"
    using assms(2) by (intro map_cong) (auto simp: censor_value_def)
  then show ?thesis using assms(1) by (simp add: censor_sensitive_data_map)
qed

theorem censor_identity_witness:
  "censor_sensitive_data
     [(''name'', Text ''a rather long plain value, 40 chars long''), (''value'', Null),
      (''n'', Num 7)]
   = [(''name'', Text ''a rather long plain value, 40 chars long''), (''value'', Null),
      (''n'', Num 7)]"
proof -
  have h1: "distinct (map fst
     [(''name'', Text ''a rather long plain value, 40 chars long''), (''value'', Null),
      (''n'', Num 7)])"
    by simp
  have k1: "\<not> is_sensitive_key ''name''" by code_simp
  have k2: "\<not> is_sensitive_key ''value''" by code_simp
  have k3: "\<not> is_sensitive_key ''n''" by code_simp
  have h2: "\<forall>(k, v) \<in> set
     [(''name'', Text ''a rather long plain value, 40 chars long''), (''value'', Null),
      (''n'', Num 7)]. \<not> is_sensitive_key k"
    using k1 k2 k3 by simp
  show ?thesis using censor_identity [OF h1 h2] .
qed

section \<open>Properties of the sensitivity tier\<close>

text \<open>
  Claim C2 (sensitivity priority), as amended. The blob that \<^verbatim>\<open>_determine_sensitivity\<close>
  searches holds the fields whose value is truthy: a field whose value is null, the empty
  string or the number zero is left out together with its column name. If that blob
  contains a high-sensitivity keyword the tier is high, whatever medium-sensitivity keywords
  it contains as well.
\<close>

theorem sensitivity_priority:
  assumes "list_ex (\<lambda>k. py_in k (all_text (data m))) high_sensitive"
  shows "determine_sensitivity m = High"
  using assms by (simp add: determine_sensitivity_def)

theorem sensitivity_priority_witness:
  "determine_sensitivity (make_match ''ItemTable'' ''authentication'' [''key'', ''value'']
      [''token'', ''auth'', ''login'', ''logout'', ''credential'', ''password'', ''session'']
      [Text ''auth_token'', Text ''user@email.com api'']) = High"
proof -
  have h: "list_ex (\<lambda>k. py_in k (all_text (data
      (make_match ''ItemTable'' ''authentication'' [''key'', ''value'']
        [''token'', ''auth'', ''login'', ''logout'', ''credential'', ''password'', ''session'']
        [Text ''auth_token'', Text ''user@email.com api''])))) high_sensitive"
    by code_simp
  show ?thesis using sensitivity_priority [OF h] .
qed

text \<open>
  The claim as stated, over the non-null values, fails: in the row
  \<^verbatim>\<open>{name: "plan", token_count: 0}\<close> the value \<^verbatim>\<open>0\<close> is not null and its column name
  contains \<^verbatim>\<open>token\<close>, yet the tier is low.
\<close>

theorem sensitivity_priority_counterexample:
  "list_ex (\<lambda>k. py_in k (spec_text (data (make_match ''ItemTable'' ''subscription''
        [''name'', ''token_count'']
        [''pro'', ''plan'', ''subscription'', ''trial'', ''premium'', ''paid'', ''billing'']
        [Text ''plan'', Num 0])))) high_sensitive
   \<and> sensitivity (make_match ''ItemTable'' ''subscription''
        [''name'', ''token_count'']
        [''pro'', ''plan'', ''subscription'', ''trial'', ''premium'', ''paid'', ''billing'']
        [Text ''plan'', Num 0]) = Low"
  by code_simp

section \<open>Properties of the classifier\<close>

lemma scan_value_foldl:
  "scan_value ks s acc = foldl insert_new acc (filter (\<lambda>k. py_in (lower k) s) ks)"
  by (induction ks arbitrary: acc) (auto simp: insert_new_def)

lemma scan_fields_foldl:
  "scan_fields kws fs acc = foldl insert_new acc (keyword_hits kws fs)"
  by (induction kws fs acc rule: scan_fields.induct)
     (auto simp: keyword_hits_def scan_value_foldl)

lemma remdups_snoc: "remdups (zs @ [x]) = remdups (filter (\<lambda>y. y \<noteq> x) zs) @ [x]"
  by (induction zs) auto

lemma first_occurrences_Cons:
  "first_occurrences (x # ys) = x # first_occurrences (filter (\<lambda>y. y \<noteq> x) ys)"
  by (simp add: first_occurrences_def remdups_snoc rev_filter)

lemma first_occurrences_Nil [simp]: "first_occurrences [] = []"
  by (simp add: first_occurrences_def)

lemma first_occurrences_set [simp]: "set (first_occurrences xs) = set xs"
  by (simp add: first_occurrences_def)

lemma first_occurrences_distinct [simp]: "distinct (first_occurrences xs)"
  by (simp add: first_occurrences_def)

lemma first_occurrences_empty [simp]: "first_occurrences xs = [] \<longleftrightarrow> xs = []"
  by (simp add: first_occurrences_def)

lemma foldl_insert_new:
  "foldl insert_new acc xs = acc @ first_occurrences (filter (\<lambda>x. x \<notin> set acc) xs)"
proof (induction xs arbitrary: acc)
  case Nil
  then show ?case by simp
next
  case (Cons x xs)
  show ?case
  proof (cases "x \<in> set acc")
    case True
    then show ?thesis using Cons.IH [of acc] by (simp add: insert_new_def)
  next
    case False
    have "filter (\<lambda>y. y \<notin> set (acc @ [x])) xs
        = filter (\<lambda>y. y \<noteq> x) (filter (\<lambda>y. y \<notin> set acc) xs)"
      by (induction xs) auto
    then show ?thesis
      using False Cons.IH [of "acc @ [x]"] by (simp add: insert_new_def first_occurrences_Cons)
  qed
qed

lemma scan_fields_first_occurrences:
  "scan_fields kws fs [] = first_occurrences (keyword_hits kws fs)"
  by (simp add: scan_fields_foldl foldl_insert_new)

lemma process_category_eq:
  "process_category tn cols md cm (c, kws) =
     AList.map_entry c (\<lambda>ms. ms @ row_matches tn cols md c kws) cm"
proof (cases "keyword_hits kws (zip cols md) = []")
  case True
  have "AList.map_entry c (\<lambda>ms. ms @ []) cm = cm"
    by (induction cm) auto
  then show ?thesis using True
    by (simp add: process_category_def row_matches_def scan_fields_first_occurrences)
next
  case False
  then show ?thesis
    by (simp add: process_category_def row_matches_def scan_fields_first_occurrences Let_def)
qed

lemma map_of_process_row:
  "distinct (map fst cfg) \<Longrightarrow>
   map_of (foldl (process_category tn cols md) cm cfg) c =
     (case map_of cfg c of None \<Rightarrow> map_of cm c
      | Some kws \<Rightarrow> map_option (\<lambda>ms. ms @ row_matches tn cols md c kws) (map_of cm c))"
proof (induction cfg arbitrary: cm)
  case Nil
  then show ?case by simp
next
  case (Cons p cfg)
  obtain c' kws' where p: "p = (c', kws')" by (cases p)
  from Cons.prems p have d: "distinct (map fst cfg)" and nin: "c' \<notin> fst ` set cfg" by auto
  from nin have none: "map_of cfg c' = None" by (simp add: map_of_eq_None_iff)
  show ?case
    using Cons.IH [OF d, of "process_category tn cols md cm (c', kws')"] p none
    by (auto simp: process_category_eq map_of_map_entry split: option.splits)
qed

lemma map_of_init_matches:
  "map_of (init_matches cfg) c = (if c \<in> fst ` set cfg then Some [] else None)"
  by (induction cfg) (auto simp: init_matches_def)


lemma process_batch_single:
  assumes "distinct (map fst cfg)" and "(c, kws) \<in> set cfg"
  shows "map_of (process_batch cfg [row] cols (init_matches cfg) tn) c
           = Some (row_matches tn cols (take (length cols) row) c kws)"
proof -
  from assms have m: "map_of cfg c = Some kws" by simp
  from assms(2) have i: "c \<in> fst ` set cfg" by force
  show ?thesis
    using map_of_process_row [OF assms(1), of tn cols "take (length cols) row" "init_matches cfg" c]
    by (simp add: process_batch_def process_row_def m map_of_init_matches i)
qed




section \<open>Category independence of the tier\<close>

lemma in_join_sublist: "x \<in> set xs \<Longrightarrow> sublist x (join sep xs)"
proof (induction sep xs rule: join.induct)
  case (1 sep)
  then show ?case by simp
next
  case (2 sep y)
  then show ?case by simp
next
  case (3 sep y z zs)
  show ?case
  proof (cases "x = y")
    case True
    then show ?thesis by simp
  next
    case False
    with 3 have "sublist x (join sep (z # zs))" by simp
    then obtain ps ss where "join sep (z # zs) = ps @ x @ ss" by (auto simp: sublist_def)
    then have "join sep (y # z # zs) = (y @ sep @ ps) @ x @ ss" by simp
    then show ?thesis unfolding sublist_def by blast
  qed
qed

lemma lower_sublist: "sublist a b \<Longrightarrow> sublist (lower a) (lower b)"
  unfolding sublist_def lower_def by (metis map_append)

lemma py_in_trans: "py_in a b \<Longrightarrow> py_in b c \<Longrightarrow> py_in a c"
  unfolding py_in_def by (rule sublist_order.order.trans)

lemma py_in_set: "py_in k s \<Longrightarrow> set k \<subseteq> set s"
  by (auto simp: py_in_def sublist_def)

lemma field_in_data_str:
  assumes "length (join '' '' (map py_str (filter truthy md))) \<le> 500"
    and "v \<in> set md" and "truthy v"
  shows "py_in (lower (py_str v)) (data_str md)"
proof -
  from assms(2,3) have "py_str v \<in> set (map py_str (filter truthy md))" by simp
  then have "sublist (py_str v) (join '' '' (map py_str (filter truthy md)))"
    by (rule in_join_sublist)
  then show ?thesis using assms(1) by (simp add: data_str_def py_in_def lower_sublist)
qed

lemma fast_untruncated:
  assumes len: "length (join '' '' (map py_str (filter truthy md))) \<le> 500"
    and sub: "\<forall>k \<in> set matched. \<exists>v \<in> set md. truthy v \<and> py_in (lower k) (lower (py_str v))"
  shows "determine_sensitivity_fast matched md =
     (if list_ex (\<lambda>s. py_in s (data_str md)) high_sensitive_keywords then High
      else if list_ex (\<lambda>k. py_in k (data_str md)) [''userid'', ''email'', ''api''] then Medium
      else Low)"
proof (cases "list_ex (\<lambda>keyword.
           list_ex (\<lambda>sensitive. py_in sensitive (lower keyword)) high_sensitive_keywords) matched")
  case False
  then show ?thesis by (simp add: determine_sensitivity_fast_def)
next
  case True
  then obtain k s where k: "k \<in> set matched" and s: "s \<in> set high_sensitive_keywords"
    and ks: "py_in s (lower k)" by (auto simp: list_ex_iff)
  from sub k obtain v where v: "v \<in> set md" "truthy v" "py_in (lower k) (lower (py_str v))"
    by blast
  have "py_in s (data_str md)"
    using ks v(3) field_in_data_str [OF len v(1,2)] by (blast intro: py_in_trans)
  with s have "list_ex (\<lambda>s. py_in s (data_str md)) high_sensitive_keywords"
    by (auto simp: list_ex_iff)
  with True show ?thesis by (simp add: determine_sensitivity_fast_def)
qed

lemma keyword_hits_iff:
  "k \<in> set (keyword_hits kws fs) \<longleftrightarrow>
     k \<in> set kws \<and> (\<exists>(col, v) \<in> set fs. truthy v \<and> py_in (lower k) (lower (py_str v)))"
  by (fastforce simp: keyword_hits_def)

lemma keyword_hits_found:
  assumes "k \<in> set (keyword_hits kws (zip cols md))"
  shows "\<exists>v \<in> set md. truthy v \<and> py_in (lower k) (lower (py_str v))"
  using assms by (auto simp: keyword_hits_iff dest: set_zip_rightD)

lemma row_matches_tier:
  assumes "length (join '' '' (map py_str (filter truthy md))) \<le> 500"
    and "m \<in> set (row_matches tn cols md c kws)"
  shows "sensitivity m =
     (if list_ex (\<lambda>s. py_in s (data_str md)) high_sensitive_keywords then High
      else if list_ex (\<lambda>k. py_in k (data_str md)) [''userid'', ''email'', ''api''] then Medium
      else Low)"
proof -
  from assms(2) have "sensitivity m = determine_sensitivity_fast
      (first_occurrences (keyword_hits kws (zip cols md))) md"
    by (auto simp: row_matches_def split: if_splits)
  moreover have "\<forall>k \<in> set (first_occurrences (keyword_hits kws (zip cols md))).
      \<exists>v \<in> set md. truthy v \<and> py_in (lower k) (lower (py_str v))"
    by (simp add: keyword_hits_found)
  ultimately show ?thesis using fast_untruncated [OF assms(1)] by simp
qed

lemma row_matches_high:
  assumes "k \<in> set (keyword_hits kws (zip cols md))"
    and "list_ex (\<lambda>s. py_in s (lower k)) high_sensitive_keywords"
  shows "map sensitivity (row_matches tn cols md c kws) = [High]"
proof -
  from assms(1) have ne: "keyword_hits kws (zip cols md) \<noteq> []" by auto
  from assms have "list_ex (\<lambda>keyword.
      list_ex (\<lambda>s. py_in s (lower keyword)) high_sensitive_keywords)
      (first_occurrences (keyword_hits kws (zip cols md)))"
    by (auto simp: list_ex_iff)
  then show ?thesis using ne by (simp add: row_matches_def determine_sensitivity_fast_def)
qed

lemma row_matches_low:
  assumes "k \<in> set (keyword_hits kws (zip cols md))"
    and "\<not> list_ex (\<lambda>keyword.
            list_ex (\<lambda>s. py_in s (lower keyword)) high_sensitive_keywords) kws"
    and "\<not> list_ex (\<lambda>s. py_in s (data_str md)) high_sensitive_keywords"
    and "\<not> list_ex (\<lambda>k. py_in k (data_str md)) [''userid'', ''email'', ''api'']"
  shows "map sensitivity (row_matches tn cols md c kws) = [Low]"
proof -
  from assms(1) have ne: "keyword_hits kws (zip cols md) \<noteq> []" by auto
  have "set (first_occurrences (keyword_hits kws (zip cols md))) \<subseteq> set kws"
    by (auto simp: keyword_hits_iff)
  with assms(2) have "\<not> list_ex (\<lambda>keyword.
      list_ex (\<lambda>s. py_in s (lower keyword)) high_sensitive_keywords)
      (first_occurrences (keyword_hits kws (zip cols md)))"
    unfolding list_ex_iff by blast
  then show ?thesis using ne assms(3,4)
    by (simp add: row_matches_def determine_sensitivity_fast_def)
qed

text \<open>
  Claim C5 (sensitivity is category-independent), as amended. In \<^verbatim>\<open>KeywordAnalyzer\<close> the
  tier of a match is computed from the row alone, so the matches of one row for two
  categories carry the same tier. In \<^verbatim>\<open>OptimizedKeywordAnalyzer\<close> the same holds for every
  row whose truthy values, joined by single spaces, take at most 500 characters.
\<close>

theorem sensitivity_category_independent:
  "sensitivity (make_match tn c1 cols kws1 row) = sensitivity (make_match tn c2 cols kws2 row)
   \<and> (distinct (map fst cfg) \<and> (c1, kws1) \<in> set cfg \<and> (c2, kws2) \<in> set cfg
      \<and> length (join '' '' (map py_str (filter truthy (take (length cols) row)))) \<le> 500
      \<and> map_of (process_batch cfg [row] cols (init_matches cfg) tn) c1 = Some [m1]
      \<and> map_of (process_batch cfg [row] cols (init_matches cfg) tn) c2 = Some [m2]
      \<longrightarrow> sensitivity m1 = sensitivity m2)"
proof
  show "sensitivity (make_match tn c1 cols kws1 row) = sensitivity (make_match tn c2 cols kws2 row)"
    by (simp add: make_match_def determine_sensitivity_def Let_def)
next
  show "distinct (map fst cfg) \<and> (c1, kws1) \<in> set cfg \<and> (c2, kws2) \<in> set cfg
      \<and> length (join '' '' (map py_str (filter truthy (take (length cols) row)))) \<le> 500
      \<and> map_of (process_batch cfg [row] cols (init_matches cfg) tn) c1 = Some [m1]
      \<and> map_of (process_batch cfg [row] cols (init_matches cfg) tn) c2 = Some [m2]
      \<longrightarrow> sensitivity m1 = sensitivity m2"
  proof (intro impI, elim conjE)
    assume d: "distinct (map fst cfg)" and c1: "(c1, kws1) \<in> set cfg" and c2: "(c2, kws2) \<in> set cfg"
      and len: "length (join '' '' (map py_str (filter truthy (take (length cols) row)))) \<le> 500"
      and b1: "map_of (process_batch cfg [row] cols (init_matches cfg) tn) c1 = Some [m1]"
      and b2: "map_of (process_batch cfg [row] cols (init_matches cfg) tn) c2 = Some [m2]"
    from b1 have "m1 \<in> set (row_matches tn cols (take (length cols) row) c1 kws1)"
      by (simp add: process_batch_single [OF d c1])
    moreover from b2 have "m2 \<in> set (row_matches tn cols (take (length cols) row) c2 kws2)"
      by (simp add: process_batch_single [OF d c2])
    ultimately show "sensitivity m1 = sensitivity m2"
      using row_matches_tier [OF len] by simp
  qed
qed

theorem sensitivity_category_independent_witness:
  "map_of (process_batch target_keywords_optimized [[Text ''auth_token'', Text ''pro plan'']]
       [''key'', ''value''] (init_matches target_keywords_optimized) ''ItemTable'')
       ''authentication''
     = Some [\<lparr>table = ''ItemTable'', category = ''authentication'', columns = [''key'', ''value''],
             data = [(''key'', Text ''auth_token''), (''value'', Text ''pro plan'')],
             matched_keywords = [''token'', ''auth''], sensitivity = High\<rparr>]
   \<and> map_of (process_batch target_keywords_optimized [[Text ''auth_token'', Text ''pro plan'']]
       [''key'', ''value''] (init_matches target_keywords_optimized) ''ItemTable'')
       ''subscription''
     = Some [\<lparr>table = ''ItemTable'', category = ''subscription'', columns = [''key'', ''value''],
             data = [(''key'', Text ''auth_token''), (''value'', Text ''pro plan'')],
             matched_keywords = [''pro'', ''plan''], sensitivity = High\<rparr>]
   \<and> sensitivity \<lparr>table = ''ItemTable'', category = ''authentication'',
             columns = [''key'', ''value''],
             data = [(''key'', Text ''auth_token''), (''value'', Text ''pro plan'')],
             matched_keywords = [''token'', ''auth''], sensitivity = High\<rparr>
     = sensitivity \<lparr>table = ''ItemTable'', category = ''subscription'',
             columns = [''key'', ''value''],
             data = [(''key'', Text ''auth_token''), (''value'', Text ''pro plan'')],
             matched_keywords = [''pro'', ''plan''], sensitivity = High\<rparr>"
proof -
  have d: "distinct (map fst target_keywords_optimized)"
    by (simp add: target_keywords_optimized_def)
  have c1: "(''authentication'',
             [''token'', ''auth'', ''credential'', ''password'', ''session'', ''login''])
           \<in> set target_keywords_optimized"
    by (simp add: target_keywords_optimized_def)
  have c2: "(''subscription'',
             [''pro'', ''plan'', ''subscription'', ''trial'', ''premium'', ''billing''])
           \<in> set target_keywords_optimized"
    by (simp add: target_keywords_optimized_def)
  have len: "length (join '' '' (map py_str (filter truthy
       (take (length [''key'', ''value'']) [Text ''auth_token'', Text ''pro plan''])))) \<le> 500"
    by simp
  have b1: "map_of (process_batch target_keywords_optimized
       [[Text ''auth_token'', Text ''pro plan'']]
       [''key'', ''value''] (init_matches target_keywords_optimized) ''ItemTable'')
       ''authentication''
     = Some [\<lparr>table = ''ItemTable'', category = ''authentication'', columns = [''key'', ''value''],
             data = [(''key'', Text ''auth_token''), (''value'', Text ''pro plan'')],
             matched_keywords = [''token'', ''auth''], sensitivity = High\<rparr>]"
    by code_simp
  have b2: "map_of (process_batch target_keywords_optimized
       [[Text ''auth_token'', Text ''pro plan'']]
       [''key'', ''value''] (init_matches target_keywords_optimized) ''ItemTable'')
       ''subscription''
     = Some [\<lparr>table = ''ItemTable'', category = ''subscription'', columns = [''key'', ''value''],
             data = [(''key'', Text ''auth_token''), (''value'', Text ''pro plan'')],
             matched_keywords = [''pro'', ''plan''], sensitivity = High\<rparr>]"
    by code_simp
  from sensitivity_category_independent [where cfg = target_keywords_optimized
      and ?c1.0 = "''authentication''" and ?c2.0 = "''subscription''"
      and row = "[Text ''auth_token'', Text ''pro plan'']" and cols = "[''key'', ''value'']"
      and tn = "''ItemTable''"
      and ?kws1.0 = "[''token'', ''auth'', ''credential'', ''password'', ''session'', ''login'']"
      and ?kws2.0 = "[''pro'', ''plan'', ''subscription'', ''trial'', ''premium'', ''billing'']",
      THEN conjunct2, rule_format, OF conjI [OF d conjI [OF c1 conjI [OF c2 conjI [OF len
        conjI [OF b1 b2]]]]]]
  have "sensitivity \<lparr>table = ''ItemTable'', category = ''authentication'',
             columns = [''key'', ''value''],
             data = [(''key'', Text ''auth_token''), (''value'', Text ''pro plan'')],
             matched_keywords = [''token'', ''auth''], sensitivity = High\<rparr>
     = sensitivity \<lparr>table = ''ItemTable'', category = ''subscription'',
             columns = [''key'', ''value''],
             data = [(''key'', Text ''auth_token''), (''value'', Text ''pro plan'')],
             matched_keywords = [''pro'', ''plan''], sensitivity = High\<rparr>" .
  with b1 b2 show ?thesis by blast
qed

text \<open>
  The claim as stated fails in \<^verbatim>\<open>OptimizedKeywordAnalyzer\<close>: \<^verbatim>\<open>_determine_sensitivity_fast\<close>
  looks at the matched keywords of the category first and then at the first 500 characters
  of the joined values only. In a row whose second value is 500 times \<^verbatim>\<open>x\<close> followed by
  \<^verbatim>\<open>token\<close>, the match for \<^verbatim>\<open>authentication\<close> is high and the match for \<^verbatim>\<open>subscription\<close>
  is low.
\<close>

theorem sensitivity_category_counterexample:
  "map sensitivity (bucket (process_batch target_keywords_optimized
       [[Text ''plan'', Text (replicate 500 (CHR ''x'') @ ''token'')]] [''key'', ''value'']
       (init_matches target_keywords_optimized) ''ItemTable'') ''authentication'') = [High]
   \<and> map sensitivity (bucket (process_batch target_keywords_optimized
       [[Text ''plan'', Text (replicate 500 (CHR ''x'') @ ''token'')]] [''key'', ''value'']
       (init_matches target_keywords_optimized) ''ItemTable'') ''subscription'') = [Low]"
proof -
  let ?long = "replicate 500 (CHR ''x'') @ ''token''"
  let ?row = "[Text ''plan'', Text ?long]"
  let ?cols = "[''key'', ''value'']"
  let ?A = "[''token'', ''auth'', ''credential'', ''password'', ''session'', ''login'']"
  let ?S = "[''pro'', ''plan'', ''subscription'', ''trial'', ''premium'', ''billing'']"
  have d: "distinct (map fst target_keywords_optimized)"
    by (simp add: target_keywords_optimized_def)
  have ca: "(''authentication'', ?A) \<in> set target_keywords_optimized"
    by (simp add: target_keywords_optimized_def)
  have cs: "(''subscription'', ?S) \<in> set target_keywords_optimized"
    by (simp add: target_keywords_optimized_def)
  have lt: "lower ''token'' = ''token''" by code_simp
  have lp: "lower ''plan'' = ''plan''" by code_simp
  have lx: "lower_char (CHR ''x'') = CHR ''x''" by code_simp
  have lps: "map lower_char ''plan '' = ''plan ''" by code_simp
  have "lower ?long = replicate 500 (CHR ''x'') @ lower ''token''"
    by (simp add: lower_def lx)
  then have "py_in (lower ''token'') (lower ?long)"
    by (simp add: py_in_def)
  then have tok: "''token'' \<in> set (keyword_hits ?A (zip ?cols ?row))"
    by (simp add: keyword_hits_iff)
  have "py_in (lower ''plan'') (lower ''plan'')" by (simp add: py_in_def)
  then have plan: "''plan'' \<in> set (keyword_hits ?S (zip ?cols ?row))"
    by (simp add: keyword_hits_iff)
  have th: "list_ex (\<lambda>s. py_in s (lower ''token'')) high_sensitive_keywords"
    by code_simp
  have ns: "\<not> list_ex (\<lambda>keyword.
      list_ex (\<lambda>s. py_in s (lower keyword)) high_sensitive_keywords) ?S"
    by code_simp
  have ds: "data_str ?row = ''plan '' @ replicate 495 (CHR ''x'')"
    using lps by (simp add: data_str_def lower_def lx)
  have chars: "\<And>s. py_in s (data_str ?row) \<Longrightarrow> set s \<subseteq> set ''plan x''"
    by (drule py_in_set) (auto simp: ds)
  have nh: "\<not> list_ex (\<lambda>s. py_in s (data_str ?row)) high_sensitive_keywords"
    by (auto simp: list_ex_iff high_sensitive_keywords_def dest!: chars)
  have nm: "\<not> list_ex (\<lambda>k. py_in k (data_str ?row)) [''userid'', ''email'', ''api'']"
    by (auto simp: list_ex_iff dest!: chars)
  have "map sensitivity (row_matches ''ItemTable'' ?cols ?row ''authentication'' ?A) = [High]"
    using tok th by (rule row_matches_high)
  moreover
  have "map sensitivity (row_matches ''ItemTable'' ?cols ?row ''subscription'' ?S) = [Low]"
    using plan ns nh nm by (rule row_matches_low)
  ultimately show ?thesis
    by (simp add: bucket_def process_batch_single [OF d ca] process_batch_single [OF d cs])
qed

section \<open>Batching\<close>






section \<open>Reports and aggregate counts\<close>

lemma true_div_pos: "0 < n \<Longrightarrow> true_div a n = Inr (of_nat a / of_nat n)"
  by (simp add: true_div_def)

lemma guarded_percentage_ok: "\<exists>q. guarded_percentage a n = Inr q"
  by (cases "0 < n") (simp_all add: guarded_percentage_def true_div_pos)

lemma guarded_percentage_zero: "guarded_percentage a 0 = Inr 0"
  by (simp add: guarded_percentage_def)

lemma security_report_ok: "\<exists>r. generate_security_report raw = Inr r"
proof -
  obtain hp where hp: "guarded_percentage (tier_count High raw) (length raw) = Inr hp"
    using guarded_percentage_ok by blast
  obtain mp where mp: "guarded_percentage (tier_count Medium raw) (length raw) = Inr mp"
    using guarded_percentage_ok by blast
  show ?thesis by (simp add: generate_security_report_def hp mp)
qed

lemma security_report_empty:
  "generate_security_report [] =
     Inr \<lparr>sr_total = 0, sr_high = 0, sr_medium = 0, sr_high_percentage = 0,
          sr_medium_percentage = 0, sr_low = 0\<rparr>"
  by (simp add: generate_security_report_def guarded_percentage_zero tier_count_def)

lemma category_lines_ok:
  "(n = 0 \<longrightarrow> (\<forall>(c, ms) \<in> set kw. ms = [])) \<Longrightarrow> \<exists>ls. category_lines n kw = Inr ls"
proof (induction kw)
  case Nil
  then show ?case by simp
next
  case (Cons p kw)
  obtain cat matches where p: "p = (cat, matches)" by (cases p)
  from Cons obtain ls where ls: "category_lines n kw = Inr ls" by auto
  show ?case
  proof (cases "matches = []")
    case True
    with p ls show ?thesis by simp
  next
    case False
    with Cons.prems p have "0 < n" by auto
    with False p ls show ?thesis by (simp add: true_div_pos)
  qed
qed

lemma category_lines_all_empty:
  "(\<forall>(c, ms) \<in> set kw. ms = []) \<Longrightarrow> category_lines n kw = Inr []"
  by (induction n kw rule: category_lines.induct) auto

lemma map_fst_map_entry [simp]: "map fst (AList.map_entry k f xs) = map fst xs"
  by (induction xs) auto

lemma table_total_map_entry:
  "k \<in> set (map fst kw) \<Longrightarrow>
   table_total (AList.map_entry k (\<lambda>ms. ms @ xs) kw) = table_total kw + length xs"
  by (induction kw) (auto simp: table_total_def)

lemma mset_concat_map_entry:
  "k \<in> set (map fst kw) \<Longrightarrow>
   mset (concat (map snd (AList.map_entry k (\<lambda>ms. ms @ xs) kw)))
     = mset (concat (map snd kw)) + mset xs"
  by (induction kw) auto

lemma table_total_length: "table_total kw = length (concat (map snd kw))"
  by (induction kw) (auto simp: table_total_def)

lemma map_fst_init_matches [simp]: "map fst (init_matches cfg) = map fst cfg"
  by (induction cfg) (auto simp: init_matches_def)

lemma map_fst_process_category [simp]:
  "map fst (process_category tn cols md cm cc) = map fst cm"
  by (simp add: process_category_def Let_def)

lemma map_fst_process_row [simp]: "map fst (process_row cfg tn cols cm row) = map fst cm"
  unfolding process_row_def by (induction cfg arbitrary: cm) auto

lemma map_fst_process_batch [simp]: "map fst (process_batch cfg rows cols cm tn) = map fst cm"
  unfolding process_batch_def by (induction rows arbitrary: cm) auto

lemma map_fst_search_loop [simp]: "map fst (search_loop cfg bs t p cm) = map fst cm"
proof (induction cfg bs t p cm rule: search_loop.induct)
  case (1 cfg bs t p cm)
  then show ?case by (subst search_loop.simps) auto
qed

lemma map_fst_search_table_optimized [simp]:
  "map fst (search_table_optimized cfg bs t) = map fst cfg"
  by (simp add: search_table_optimized_def)

text \<open>Appending the buckets of one table keeps the flat list and the buckets in step.\<close>

lemma foldl_extend_category:
  "set (map fst tm) \<subseteq> set (map fst (fst res)) \<Longrightarrow>
   map fst (fst (foldl extend_category res tm)) = map fst (fst res)
   \<and> mset (snd (foldl extend_category res tm)) + mset (concat (map snd (fst res)))
       = mset (concat (map snd (fst (foldl extend_category res tm)))) + mset (snd res)"
proof (induction tm arbitrary: res)
  case Nil
  then show ?case by simp
next
  case (Cons cm tm)
  let ?res' = "extend_category res cm"
  from Cons.prems have k: "fst cm \<in> set (map fst (fst res))" by simp
  have keys: "map fst (fst ?res') = map fst (fst res)" by (simp add: extend_category_def)
  with Cons.prems have "set (map fst tm) \<subseteq> set (map fst (fst ?res'))" by simp
  from Cons.IH [OF this] keys
  show ?case using mset_concat_map_entry [OF k, of "snd cm"] by (simp add: extend_category_def)
qed

lemma optimized_invariant:
  "map fst (fst (search_keywords_optimized cfg bs tables)) = map fst cfg
   \<and> mset (snd (search_keywords_optimized cfg bs tables))
       = mset (concat (map snd (fst (search_keywords_optimized cfg bs tables))))"
proof -
  have "map fst (fst res) = map fst cfg
        \<and> mset (snd res) = mset (concat (map snd (fst res))) \<Longrightarrow>
      map fst (fst (foldl (add_table cfg bs) res tables)) = map fst cfg
      \<and> mset (snd (foldl (add_table cfg bs) res tables))
          = mset (concat (map snd (fst (foldl (add_table cfg bs) res tables))))" for res
  proof (induction tables arbitrary: res)
    case Nil
    then show ?case by simp
  next
    case (Cons t tables)
    have "map fst (fst (add_table cfg bs res t)) = map fst cfg
        \<and> mset (snd (add_table cfg bs res t))
           = mset (concat (map snd (fst (add_table cfg bs res t))))"
      using Cons.prems foldl_extend_category [of "search_table_optimized cfg bs t" res]
      by (auto simp: add_table_def)
    from Cons.IH [OF this] show ?case by simp
  qed
  from this [of "(init_matches cfg, [])"] show ?thesis
    by (simp add: search_keywords_optimized_def init_matches_def comp_def case_prod_beta)
qed

lemma comprehensive_report_ok:
  assumes "mset (snd res) = mset (concat (map snd (fst res)))"
  shows "\<exists>r. generate_comprehensive_report res = Inr r"
proof -
  obtain sr where sr: "generate_security_report (snd res) = Inr sr"
    using security_report_ok by blast
  have "length (snd res) = 0 \<longrightarrow> (\<forall>(c, ms) \<in> set (fst res). ms = [])"
  proof
    assume "length (snd res) = 0"
    with assms have "concat (map snd (fst res)) = []" by (metis length_0_conv mset_zero_iff)
    then show "\<forall>(c, ms) \<in> set (fst res). ms = []" by auto
  qed
  then have "length (snd res) = 0 \<longrightarrow>
      (\<forall>(c, ms) \<in> set (sort_key (\<lambda>(cat, matches). - int (length matches)) (fst res)). ms = [])"
    by simp
  from category_lines_ok [OF this] obtain ls where
    "category_lines (length (snd res))
       (sort_key (\<lambda>(cat, matches). - int (length matches)) (fst res)) = Inr ls" by blast
  with sr show ?thesis by (simp add: generate_comprehensive_report_def)
qed

lemma comprehensive_report_empty:
  "generate_comprehensive_report (init_matches cfg, []) =
     Inr \<lparr>cr_sensitivity = \<lparr>sr_total = 0, sr_high = 0, sr_medium = 0, sr_high_percentage = 0,
          sr_medium_percentage = 0, sr_low = 0\<rparr>, cr_categories = []\<rparr>"
proof -
  have "\<forall>(c, ms) \<in> set (sort_key (\<lambda>(cat, matches). - int (length matches))
      (init_matches cfg)). ms = []"
    by (auto simp: init_matches_def)
  from category_lines_all_empty [OF this] show ?thesis
    by (simp add: generate_comprehensive_report_def security_report_empty)
qed

text \<open>
  Claim C9 (percentage safety). On an empty accumulator both reports give 0 for the high
  and the medium percentage and list no category percentage at all; no accumulator makes
  \<^verbatim>\<open>generate_security_report\<close> divide by zero, and no accumulator that a scan of
  \<^verbatim>\<open>OptimizedKeywordAnalyzer\<close> can produce makes \<^verbatim>\<open>generate_comprehensive_report\<close> divide by
  zero (its category percentage has no test of its own, but a non-empty bucket implies a
  non-empty \<^verbatim>\<open>raw_data\<close>).
\<close>

theorem percentage_safety:
  "generate_security_report [] =
     Inr \<lparr>sr_total = 0, sr_high = 0, sr_medium = 0, sr_high_percentage = 0,
          sr_medium_percentage = 0, sr_low = 0\<rparr>
   \<and> (\<exists>r. generate_security_report raw = Inr r)
   \<and> generate_comprehensive_report (init_matches cfg, []) =
       Inr \<lparr>cr_sensitivity = \<lparr>sr_total = 0, sr_high = 0, sr_medium = 0, sr_high_percentage = 0,
            sr_medium_percentage = 0, sr_low = 0\<rparr>, cr_categories = []\<rparr>
   \<and> (\<exists>r. generate_comprehensive_report (search_keywords_optimized cfg bs tables) = Inr r)"
  using security_report_empty security_report_ok comprehensive_report_empty
    comprehensive_report_ok [of "search_keywords_optimized cfg bs tables"] optimized_invariant
  by blast

lemma map_fst_search_categories [simp]:
  "map fst (fst (search_categories t cols row_limit cfg cm)) = map fst cm"
  by (induction t cols row_limit cfg cm rule: search_categories.induct)
     (auto split: sum.splits)

lemma map_fst_search_in_table [simp]:
  "map fst (fst (search_in_table cfg q n t)) = map fst cfg"
  by (simp add: search_in_table_def split: sum.splits)

lemma merge_category_simps [simp]:
  "res_warnings (merge_category q n res cm) = res_warnings res"
  "map fst (res_keywords (merge_category q n res cm)) = map fst (res_keywords res)"
  by (simp_all add: merge_category_def Let_def)

lemma merge_category_mset:
  assumes "fst cm \<in> set (map fst (res_keywords res))"
  shows "\<exists>xs. res_raw_data (merge_category q n res cm) = res_raw_data res @ xs
          \<and> mset (concat (map snd (res_keywords (merge_category q n res cm))))
              = mset (concat (map snd (res_keywords res))) + mset xs"
  using mset_concat_map_entry [OF assms] by (simp add: merge_category_def Let_def)

lemma foldl_merge_category:
  "set (map fst tm) \<subseteq> set (map fst (res_keywords res)) \<Longrightarrow>
   map fst (res_keywords (foldl (merge_category q n) res tm)) = map fst (res_keywords res)
   \<and> res_warnings (foldl (merge_category q n) res tm) = res_warnings res
   \<and> (\<exists>xs. res_raw_data (foldl (merge_category q n) res tm) = res_raw_data res @ xs
          \<and> mset (concat (map snd (res_keywords (foldl (merge_category q n) res tm))))
              = mset (concat (map snd (res_keywords res))) + mset xs)"
proof (induction tm arbitrary: res)
  case Nil
  then show ?case by simp
next
  case (Cons cm tm)
  let ?res' = "merge_category q n res cm"
  from Cons.prems have k: "fst cm \<in> set (map fst (res_keywords res))" by simp
  from merge_category_mset [OF k, of q n] obtain xs where
    xs: "res_raw_data ?res' = res_raw_data res @ xs"
        "mset (concat (map snd (res_keywords ?res')))
           = mset (concat (map snd (res_keywords res))) + mset xs" by blast
  from Cons.prems have "set (map fst tm) \<subseteq> set (map fst (res_keywords ?res'))" by simp
  from Cons.IH [OF this] obtain ys where
    ys: "map fst (res_keywords (foldl (merge_category q n) ?res' tm))
           = map fst (res_keywords ?res')"
        "res_warnings (foldl (merge_category q n) ?res' tm) = res_warnings ?res'"
        "res_raw_data (foldl (merge_category q n) ?res' tm) = res_raw_data ?res' @ ys"
        "mset (concat (map snd (res_keywords (foldl (merge_category q n) ?res' tm))))
           = mset (concat (map snd (res_keywords ?res'))) + mset ys" by blast
  have "res_raw_data (foldl (merge_category q n) ?res' tm) = res_raw_data res @ (xs @ ys)
      \<and> mset (concat (map snd (res_keywords (foldl (merge_category q n) ?res' tm))))
           = mset (concat (map snd (res_keywords res))) + mset (xs @ ys)"
    using xs ys by simp
  then show ?case using ys(1,2) by (simp del: append_assoc mset_append)
qed

lemma log_error_simps [simp]:
  "res_keywords (log_error err res) = res_keywords res"
  "res_raw_data (log_error err res) = res_raw_data res"
  "res_warnings (log_error err res) = res_warnings res @ (case err of None \<Rightarrow> [] | Some e \<Rightarrow> [e])"
  by (simp_all add: log_error_def)

lemma scan_tables_in_step:
  "in_step cfg res \<Longrightarrow> in_step cfg (scan_tables cfg q n tables res)"
proof (induction tables arbitrary: res)
  case Nil
  then show ?case by simp
next
  case (Cons t tables)
  let ?tm = "fst (search_in_table cfg q n t)"
  let ?err = "snd (search_in_table cfg q n t)"
  let ?res' = "log_error ?err (if 0 < table_total ?tm
                 then foldl (merge_category q n) res ?tm else res)"
  have "set (map fst ?tm) \<subseteq> set (map fst (res_keywords res))"
    using Cons.prems by (simp add: in_step_def)
  from foldl_merge_category [OF this, of q n] Cons.prems
  have "in_step cfg ?res'" by (auto simp: in_step_def)
  from Cons.IH [OF this] Cons.prems show ?case by simp
qed

lemma search_keywords_in_step: "in_step cfg (search_keywords cfg q n tables)"
  unfolding search_keywords_def
  by (rule scan_tables_in_step)
     (simp add: in_step_def new_results_def init_matches_def comp_def case_prod_beta)

lemma sum_category_counts:
  "sum_list (map snd (category_counts kw)) = length (concat (map snd kw))"
  by (induction kw) (auto simp: category_counts_def)

text \<open>
  Claim C10 (aggregate consistency), as amended. After a scan, in full and in quick mode,
  \<^verbatim>\<open>raw_data\<close> holds exactly the matches of the per-category buckets, each as often as the
  buckets hold it, so the total count is the sum of the per-category counts. The order
  differs: \<^verbatim>\<open>raw_data\<close> is ordered by table and then by category, the concatenation of the
  buckets by category and then by table.
\<close>

theorem aggregate_consistency:
  "mset (res_raw_data (search_keywords cfg q n tables))
     = mset (concat (map snd (res_keywords (search_keywords cfg q n tables))))
   \<and> length (res_raw_data (search_keywords cfg q n tables))
     = sum_list (map snd (category_counts (res_keywords (search_keywords cfg q n tables))))
   \<and> mset (snd (search_keywords_optimized cfg bs mtables))
     = mset (concat (map snd (fst (search_keywords_optimized cfg bs mtables))))
   \<and> length (snd (search_keywords_optimized cfg bs mtables))
     = sum_list (map snd (category_counts (fst (search_keywords_optimized cfg bs mtables))))"
proof -
  have a: "mset (res_raw_data (search_keywords cfg q n tables))
     = mset (concat (map snd (res_keywords (search_keywords cfg q n tables))))"
    using search_keywords_in_step [of cfg q n tables] by (simp add: in_step_def)
  have b: "mset (snd (search_keywords_optimized cfg bs mtables))
     = mset (concat (map snd (fst (search_keywords_optimized cfg bs mtables))))"
    using optimized_invariant by blast
  from a have "length (res_raw_data (search_keywords cfg q n tables))
     = length (concat (map snd (res_keywords (search_keywords cfg q n tables))))"
    by (rule mset_eq_length)
  moreover from b have "length (snd (search_keywords_optimized cfg bs mtables))
     = length (concat (map snd (fst (search_keywords_optimized cfg bs mtables))))"
    by (rule mset_eq_length)
  ultimately show ?thesis using a b by (simp add: sum_category_counts)
qed

text \<open>
  The claim as stated, with \<^verbatim>\<open>raw_data\<close> equal to the concatenation of the buckets, fails
  as soon as two tables have matches in two categories.
\<close>

theorem aggregate_order_counterexample:
  "snd (search_keywords_optimized target_keywords_optimized 500
      [\<lparr>mt_name = ''ItemTable'', mt_columns = [''key'', ''value''],
        mt_rows = [[Text ''auth_token'', Text ''abc''], [Text ''plan_type'', Text ''free'']]\<rparr>,
       \<lparr>mt_name = ''cursorDiskKV'', mt_columns = [''key'', ''value''],
        mt_rows = [[Text ''session_id'', Text ''xyz''], [Text ''trial_end'', Text ''never'']]\<rparr>])
   \<noteq> concat (map snd (fst (search_keywords_optimized target_keywords_optimized 500
      [\<lparr>mt_name = ''ItemTable'', mt_columns = [''key'', ''value''],
        mt_rows = [[Text ''auth_token'', Text ''abc''], [Text ''plan_type'', Text ''free'']]\<rparr>,
       \<lparr>mt_name = ''cursorDiskKV'', mt_columns = [''key'', ''value''],
        mt_rows = [[Text ''session_id'', Text ''xyz''], [Text ''trial_end'', Text ''never'']]\<rparr>])))"
  by code_simp

end
